theory Spec2Isabelle
  imports Main
begin

section \<open>Error values\<close>

text \<open>
  Go error values of \<^verbatim>\<open>config.go\<close>.  \<open>ErrConfigNotFound\<close> is the package's sentinel
  (\<^verbatim>\<open>var ErrConfigNotFound = fmt.Errorf("configuration value not found")\<close>).
  \<open>DriverError\<close> is any failure reported by \<^verbatim>\<open>database/sql\<close> or the sqlite driver for
  reasons outside the tables (I/O, locking, resource limits); \<open>ConstraintError\<close> is the driver's
  error for a violated uniqueness constraint, its argument the column(s) named in the message.
  \<open>Errorf\<close> is \<^verbatim>\<open>fmt.Errorf\<close> without \<^verbatim>\<open>%w\<close>; \<open>ErrorfW msg e\<close> is \<^verbatim>\<open>fmt.Errorf\<close> with
  \<^verbatim>\<open>%w\<close>: the formatted message and the error it wraps.
\<close>

datatype error =
    ErrConfigNotFound
  | DriverError string
  | ConstraintError string
  | Errorf string
  | ErrorfW string error

text \<open>The method \<^verbatim>\<open>Error()\<close>: the message of an error value.\<close>

fun Error :: "error \<Rightarrow> string" where
  "Error ErrConfigNotFound = ''configuration value not found''"
| "Error (DriverError msg) = msg"
| "Error (ConstraintError cols) = ''UNIQUE constraint failed: '' @ cols"
| "Error (Errorf msg) = msg"
| "Error (ErrorfW msg err) = msg"

text \<open>\<^verbatim>\<open>errors.Is\<close>: the target is the error itself or is reached by unwrapping it.\<close>

fun errors_Is :: "error \<Rightarrow> error \<Rightarrow> bool" where
  "errors_Is (ErrorfW msg err) target = (ErrorfW msg err = target \<or> errors_Is err target)"
| "errors_Is err target = (err = target)"

text \<open>The verb \<^verbatim>\<open>%d\<close> of \<^verbatim>\<open>fmt\<close> on a non-negative count: its decimal digits.\<close>

fun fmt_d :: "nat \<Rightarrow> string" where
  "fmt_d n = (if n < 10 then [char_of (48 + n)] else fmt_d (n div 10) @ [char_of (48 + n mod 10)])"

declare fmt_d.simps [simp del]

section \<open>The database\<close>

text \<open>
  Modelled from the spec: the schema, which the migration code (\<^verbatim>\<open>runMigrations\<close>, not among
  the sources) creates.  The spec gives it as
  \<^verbatim>\<open>applications(name TEXT UNIQUE PRIMARY KEY)\<close> and
  \<^verbatim>\<open>configurations(application_name TEXT, configuration_name TEXT, configuration_value TEXT,
  UNIQUE(application_name, configuration_name))\<close>, with no enforced foreign key from
  \<open>configurations\<close> to \<open>applications\<close>.  A table is the list of its rows; the order of the list
  is the order in which a \<^verbatim>\<open>SELECT\<close> without \<^verbatim>\<open>ORDER BY\<close> delivers them, which SQL leaves
  open.  Every column holds a text value: the repository only ever binds Go strings.
\<close>

record config_row =
  application_name :: string
  configuration_name :: string
  configuration_value :: string

record database =
  applications :: "string list"
  configurations :: "config_row list"

definition config_key :: "config_row \<Rightarrow> string \<times> string" where
  "config_key r = (application_name r, configuration_name r)"

text \<open>Modelled from the spec: the state of a fresh database file once the migrations have run.\<close>

definition fresh_database :: database where
  "fresh_database = \<lparr>applications = [], configurations = []\<rparr>"

text \<open>
  Modelled from the spec: the two uniqueness constraints of the schema, as a predicate on
  states.  The database engine keeps them; the statements below are shown to preserve them.
\<close>

definition schema_ok :: "database \<Rightarrow> bool" where
  "schema_ok db \<longleftrightarrow>
     distinct (applications db) \<and> distinct (map config_key (configurations db))"

subsection \<open>The \<^verbatim>\<open>LIKE\<close> operator\<close>

text \<open>
  The \<^verbatim>\<open>LIKE\<close> operator of SQLite as its documentation gives it, with no \<^verbatim>\<open>ESCAPE\<close> clause:
  \<^verbatim>\<open>%\<close> matches any sequence of zero or more characters, \<^verbatim>\<open>_\<close> matches exactly one
  character, any other character matches itself, upper and lower case ASCII letters being
  equal.  Strings are UTF-8 byte sequences: a character is a lead byte with the continuation
  bytes (\<^verbatim>\<open>10xxxxxx\<close>) that follow it.
\<close>

definition sqlite3Tolower :: "char \<Rightarrow> char" where
  "sqlite3Tolower c =
     (let n = (of_char c :: nat) in if 65 \<le> n \<and> n \<le> 90 then char_of (n + 32) else c)"

definition utf8_continuation :: "char \<Rightarrow> bool" where
  "utf8_continuation c \<longleftrightarrow> 128 \<le> (of_char c :: nat) \<and> (of_char c :: nat) < 192"

fun utf8_skip :: "string \<Rightarrow> string" where
  "utf8_skip [] = []"
| "utf8_skip (c # s) =
     (if 192 \<le> (of_char c :: nat) then dropWhile utf8_continuation s else s)"

function sql_like :: "string \<Rightarrow> string \<Rightarrow> bool" where
  "sql_like [] s = (s = [])"
| "sql_like (p # ps) s =
     (if p = CHR ''%'' then
        (if sql_like ps s then True
         else if s = [] then False
         else sql_like (p # ps) (utf8_skip s))
      else if s = [] then False
      else if p = CHR ''_'' then sql_like ps (utf8_skip s)
      else (p = hd s \<or> sqlite3Tolower p = sqlite3Tolower (hd s)) \<and> sql_like ps (tl s))"
  by pat_completeness auto
termination
  by (relation "measure (\<lambda>(p, s). length p + length s)")
    (auto simp: neq_Nil_conv less_Suc_eq_le le_SucI length_dropWhile_le)

declare sql_like.simps(2) [simp del]

subsection \<open>The statements of the repository\<close>

text \<open>
  Each SQL text of \<^verbatim>\<open>config.go\<close> with its parameters bound, as a function of the tables.
  A query gives the selected rows in table order.  A data-changing statement gives the
  engine's error, or the number of rows it changed together with the new tables.
\<close>

type_synonym statement = "database \<Rightarrow> error + nat \<times> database"

text \<open>\<^verbatim>\<open>SELECT name FROM applications\<close>\<close>

definition select_applications :: "database \<Rightarrow> string list" where
  "select_applications db = applications db"

text \<open>\<^verbatim>\<open>SELECT configuration_name, configuration_value FROM configurations
  WHERE application_name = ?\<close>\<close>

definition select_configurations :: "string \<Rightarrow> database \<Rightarrow> (string \<times> string) list" where
  "select_configurations app db =
     map (\<lambda>r. (configuration_name r, configuration_value r))
       (filter (\<lambda>r. application_name r = app) (configurations db))"

text \<open>\<^verbatim>\<open>SELECT configuration_value FROM configurations
  WHERE application_name = ? AND configuration_name = ?\<close>\<close>

definition select_configuration_value :: "string \<Rightarrow> string \<Rightarrow> database \<Rightarrow> string list" where
  "select_configuration_value app name db =
     map configuration_value
       (filter (\<lambda>r. application_name r = app \<and> configuration_name r = name)
          (configurations db))"

text \<open>\<^verbatim>\<open>INSERT INTO applications (name) VALUES (?)\<close>\<close>

definition insert_application :: "string \<Rightarrow> statement" where
  "insert_application name db =
     (if name \<in> set (applications db) then Inl (ConstraintError ''applications.name'')
      else Inr (1, db\<lparr>applications := applications db @ [name]\<rparr>))"

text \<open>\<^verbatim>\<open>INSERT INTO applications (name) VALUES (?) ON CONFLICT DO NOTHING\<close>\<close>

definition insert_application_do_nothing :: "string \<Rightarrow> statement" where
  "insert_application_do_nothing name db =
     (if name \<in> set (applications db) then Inr (0, db)
      else Inr (1, db\<lparr>applications := applications db @ [name]\<rparr>))"

text \<open>\<^verbatim>\<open>INSERT INTO configurations (application_name, configuration_name, configuration_value)
  VALUES (?1, ?2, ?3) ON CONFLICT (application_name, configuration_name) DO
  UPDATE SET configuration_value = ?3\<close>: the row that holds the pair (one row at most, under the
  uniqueness constraint) gets the new value in place, and a new row is added only when no row
  holds the pair.\<close>

definition upsert_rows ::
  "string \<Rightarrow> string \<Rightarrow> string \<Rightarrow> config_row list \<Rightarrow> config_row list" where
  "upsert_rows app name val rows =
     (if (app, name) \<in> set (map config_key rows) then
        map (\<lambda>r. if config_key r = (app, name) then r\<lparr>configuration_value := val\<rparr> else r)
          rows
      else rows @ [\<lparr>application_name = app, configuration_name = name,
                    configuration_value = val\<rparr>])"

definition upsert_configuration :: "string \<Rightarrow> string \<Rightarrow> string \<Rightarrow> statement" where
  "upsert_configuration app name val db =
     Inr (1, db\<lparr>configurations := upsert_rows app name val (configurations db)\<rparr>)"

text \<open>\<^verbatim>\<open>DELETE FROM configurations WHERE ...\<close>, the condition given as a predicate on rows.\<close>

definition delete_configurations :: "(config_row \<Rightarrow> bool) \<Rightarrow> statement" where
  "delete_configurations cond db =
     Inr (length (filter cond (configurations db)),
          db\<lparr>configurations := filter (\<lambda>r. \<not> cond r) (configurations db)\<rparr>)"

text \<open>\<^verbatim>\<open>WHERE application_name = ? AND configuration_name = ?\<close>\<close>

definition where_name_eq :: "string \<Rightarrow> string \<Rightarrow> config_row \<Rightarrow> bool" where
  "where_name_eq app name r \<longleftrightarrow> application_name r = app \<and> configuration_name r = name"

text \<open>\<^verbatim>\<open>WHERE application_name = ? AND configuration_name LIKE ?\<close>\<close>

definition where_name_like :: "string \<Rightarrow> string \<Rightarrow> config_row \<Rightarrow> bool" where
  "where_name_like app pattern r \<longleftrightarrow>
     application_name r = app \<and> sql_like pattern (configuration_name r)"

subsection \<open>The driver interface\<close>

text \<open>
  What the environment does to one call of the repository.  A statement can fail for reasons
  that the tables do not determine; each field, when set, makes the corresponding call of
  \<^verbatim>\<open>database/sql\<close> return that message as its error: \<open>stmt_fault\<close> for \<^verbatim>\<open>Query\<close> and
  \<^verbatim>\<open>Exec\<close>, \<open>scan_fault\<close> for \<^verbatim>\<open>Scan\<close>, \<open>affected_fault\<close> for \<^verbatim>\<open>RowsAffected\<close>;
  \<open>rows_fault = Some (n, msg)\<close> stops the cursor after \<open>n\<close> rows (\<^verbatim>\<open>Next\<close> returns false)
  with \<^verbatim>\<open>Err\<close> returning \<open>msg\<close>.
\<close>

record faults =
  stmt_fault :: "string option"
  scan_fault :: "string option"
  rows_fault :: "(nat \<times> string) option"
  affected_fault :: "string option"

definition no_faults :: faults where
  "no_faults = \<lparr>stmt_fault = None, scan_fault = None, rows_fault = None, affected_fault = None\<rparr>"

text \<open>A cursor (\<^verbatim>\<open>*sql.Rows\<close>): the rows that \<^verbatim>\<open>Next\<close> will deliver and the final \<^verbatim>\<open>Err()\<close>.\<close>

type_synonym 'r rows = "'r list \<times> error option"

definition db_Query :: "faults \<Rightarrow> 'r list \<Rightarrow> error + 'r rows" where
  "db_Query f selected =
     (case stmt_fault f of
        Some msg \<Rightarrow> Inl (DriverError msg)
      | None \<Rightarrow>
          (case rows_fault f of
             Some (n, msg) \<Rightarrow> Inr (take n selected, Some (DriverError msg))
           | None \<Rightarrow> Inr (selected, None)))"

definition rows_Scan :: "faults \<Rightarrow> 'r \<Rightarrow> error + 'r" where
  "rows_Scan f row = (case scan_fault f of Some msg \<Rightarrow> Inl (DriverError msg) | None \<Rightarrow> Inr row)"

text \<open>\<^verbatim>\<open>Exec\<close>: a failed statement changes nothing.\<close>

definition db_Exec :: "faults \<Rightarrow> statement \<Rightarrow> database \<Rightarrow> (error + nat) \<times> database" where
  "db_Exec f stmt db =
     (case stmt_fault f of
        Some msg \<Rightarrow> (Inl (DriverError msg), db)
      | None \<Rightarrow> (case stmt db of Inl err \<Rightarrow> (Inl err, db) | Inr (n, db') \<Rightarrow> (Inr n, db')))"

definition result_RowsAffected :: "faults \<Rightarrow> nat \<Rightarrow> error + nat" where
  "result_RowsAffected f n =
     (case affected_fault f of Some msg \<Rightarrow> Inl (DriverError msg) | None \<Rightarrow> Inr n)"

section \<open>The repository\<close>

text \<open>
  The methods of \<^verbatim>\<open>Repository\<close>.  The receiver's database handle is the explicit state
  \<open>db\<close>; the first argument says which calls of the driver fail during this call.  A reading
  method returns its error or its value; a writing method returns its error (\<open>None\<close> for
  \<^verbatim>\<open>nil\<close>) and the tables it leaves behind.  \<^verbatim>\<open>New\<close> and \<^verbatim>\<open>Close\<close> open and close the
  handle and are not part of the model.
\<close>

subsection \<open>\<^verbatim>\<open>DefaultConfigurationFile\<close>\<close>

text \<open>
  \<^verbatim>\<open>path.Clean\<close> of the Go standard library: the loop over the path, \<open>rest\<close> the part still
  to be read, \<open>out\<close> the bytes written so far and \<open>dotdot\<close> the index where a \<^verbatim>\<open>..\<close>
  element must stop removing.
\<close>

function backtrack :: "string \<Rightarrow> nat \<Rightarrow> nat \<Rightarrow> nat" where
  "backtrack buf dotdot w =
     (if w > dotdot \<and> buf ! w \<noteq> CHR ''/'' then backtrack buf dotdot (w - 1) else w)"
  by pat_completeness auto
termination
  by (relation "measure (\<lambda>(buf, dotdot, w). w)") auto

declare backtrack.simps [simp del]

function clean_loop :: "bool \<Rightarrow> string \<Rightarrow> string \<Rightarrow> nat \<Rightarrow> string" where
  "clean_loop rooted [] out dotdot = out"
| "clean_loop rooted (c # cs) out dotdot =
     (if c = CHR ''/'' then clean_loop rooted cs out dotdot
      else if c = CHR ''.'' \<and> (cs = [] \<or> hd cs = CHR ''/'') then
        clean_loop rooted cs out dotdot
      else if c = CHR ''.'' \<and> hd cs = CHR ''.'' \<and> (tl cs = [] \<or> hd (tl cs) = CHR ''/'') then
        (if length out > dotdot then
           clean_loop rooted (tl cs) (take (backtrack out dotdot (length out - 1)) out) dotdot
         else if \<not> rooted then
           (let out' = (if length out > 0 then out @ ''/'' else out) @ ''..''
            in clean_loop rooted (tl cs) out' (length out'))
         else clean_loop rooted (tl cs) out dotdot)
      else
        (let out' = (if rooted \<and> length out \<noteq> 1 \<or> \<not> rooted \<and> length out \<noteq> 0
                     then out @ ''/'' else out)
         in clean_loop rooted (dropWhile (\<lambda>x. x \<noteq> CHR ''/'') cs)
              (out' @ c # takeWhile (\<lambda>x. x \<noteq> CHR ''/'') cs) dotdot))"
  by pat_completeness auto
termination
  by (relation "measure (\<lambda>(rooted, rest, out, dotdot). length rest)")
    (auto simp: less_Suc_eq_le length_dropWhile_le)

declare clean_loop.simps(2) [simp del]

definition path_Clean :: "string \<Rightarrow> string" where
  "path_Clean path =
     (if path = [] then ''.''
      else
        (let rooted = (hd path = CHR ''/'');
             out = (if rooted then clean_loop True (tl path) ''/'' 1
                    else clean_loop False path [] 0)
         in if out = [] then ''.'' else out))"

text \<open>\<^verbatim>\<open>path.Join\<close>: the non-empty elements with a slash between them, cleaned.\<close>

fun join_elems :: "string \<Rightarrow> string list \<Rightarrow> string" where
  "join_elems buf [] = buf"
| "join_elems buf (e # elem) =
     (if length buf > 0 \<or> e \<noteq> []
      then join_elems ((if length buf > 0 then buf @ ''/'' else buf) @ e) elem
      else join_elems buf elem)"

definition path_Join :: "string list \<Rightarrow> string" where
  "path_Join elem =
     (if sum_list (map length elem) = 0 then [] else path_Clean (join_elems [] elem))"

text \<open>The argument is what \<^verbatim>\<open>os.UserHomeDir()\<close> returned.\<close>

definition DefaultConfigurationFile :: "error + string \<Rightarrow> string" where
  "DefaultConfigurationFile UserHomeDir =
     (case UserHomeDir of
        Inl err \<Rightarrow> ''/.config.db''
      | Inr home \<Rightarrow> path_Join [home, ''.config.db''])"

text \<open>
  Paths that \<^verbatim>\<open>path.Clean\<close> has nothing to do on: a slash before each of a list of
  elements, an element being non-empty, free of slashes and neither \<^verbatim>\<open>.\<close> nor \<^verbatim>\<open>..\<close>.
\<close>

definition path_element :: "string \<Rightarrow> bool" where
  "path_element s \<longleftrightarrow> s \<noteq> [] \<and> CHR ''/'' \<notin> set s \<and> s \<noteq> ''.'' \<and> s \<noteq> ''..''"

definition rooted_path :: "string list \<Rightarrow> string" where
  "rooted_path elems = concat (map (\<lambda>s. CHR ''/'' # s) elems)"

subsection \<open>Reading\<close>

text \<open>The loop of \<^verbatim>\<open>GetApps\<close> over the cursor, \<open>apps\<close> the slice built so far.\<close>

fun scan_apps :: "faults \<Rightarrow> string list \<Rightarrow> string list \<Rightarrow> error + string list" where
  "scan_apps f [] apps = Inr apps"
| "scan_apps f (row # rest) apps =
     (case rows_Scan f row of
        Inl err \<Rightarrow> Inl (ErrorfW (''cannot scan application table row: '' @ Error err) err)
      | Inr name \<Rightarrow> scan_apps f rest (apps @ [name]))"

definition GetApps :: "faults \<Rightarrow> database \<Rightarrow> error + string list" where
  "GetApps f db =
     (case db_Query f (select_applications db) of
        Inl err \<Rightarrow> Inl (ErrorfW (''cannot query the database: '' @ Error err) err)
      | Inr (rows, rows_Err) \<Rightarrow>
          (case scan_apps f rows [] of
             Inl err \<Rightarrow> Inl err
           | Inr apps \<Rightarrow>
               (case rows_Err of
                  Some err \<Rightarrow>
                    Inl (ErrorfW (''cannot browse application table: '' @ Error err) err)
                | None \<Rightarrow> Inr apps)))"

text \<open>The loop of \<^verbatim>\<open>GetConfigs\<close>, \<open>configs\<close> the Go map built so far.\<close>

fun scan_configs ::
  "faults \<Rightarrow> string \<Rightarrow> (string \<times> string) list \<Rightarrow> (string \<rightharpoonup> string) \<Rightarrow>
   error + (string \<rightharpoonup> string)" where
  "scan_configs f applicationName [] configs = Inr configs"
| "scan_configs f applicationName (row # rest) configs =
     (case rows_Scan f row of
        Inl err \<Rightarrow>
          Inl (ErrorfW (''cannot scan single config: '' @ applicationName @ '' - '' @ Error err)
                 err)
      | Inr (name, val) \<Rightarrow> scan_configs f applicationName rest (configs(name \<mapsto> val)))"

definition GetConfigs :: "faults \<Rightarrow> database \<Rightarrow> string \<Rightarrow> error + (string \<rightharpoonup> string)" where
  "GetConfigs f db applicationName =
     (case db_Query f (select_configurations applicationName db) of
        Inl err \<Rightarrow>
          Inl (ErrorfW (''cannot get configurations from database: '' @ applicationName @
                        '' - '' @ Error err) err)
      | Inr (rows, rows_Err) \<Rightarrow>
          (case scan_configs f applicationName rows Map.empty of
             Inl err \<Rightarrow> Inl err
           | Inr configs \<Rightarrow>
               (case rows_Err of
                  Some err \<Rightarrow>
                    Inl (ErrorfW (''cannot iterate over all configurations: '' @
                                  applicationName @ '' - '' @ Error err) err)
                | None \<Rightarrow> Inr configs)))"

text \<open>\<^verbatim>\<open>GetConfig\<close> returns from inside its loop at the first row.\<close>

definition GetConfig :: "faults \<Rightarrow> database \<Rightarrow> string \<Rightarrow> string \<Rightarrow> error + string" where
  "GetConfig f db applicationName configName =
     (case db_Query f (select_configuration_value applicationName configName db) of
        Inl err \<Rightarrow>
          Inl (ErrorfW (''cannot get configuration from database: ('' @ applicationName @
                        '', '' @ configName @ '') - '' @ Error err) err)
      | Inr (rows, rows_Err) \<Rightarrow>
          (case rows of
             row # rest \<Rightarrow>
               (case rows_Scan f row of
                  Inl err \<Rightarrow>
                    Inl (ErrorfW (''cannot scan configuration value from database: ('' @
                                  applicationName @ '', '' @ configName @ '') - '' @ Error err)
                           err)
                | Inr val \<Rightarrow> Inr val)
           | [] \<Rightarrow>
               (case rows_Err of
                  Some err \<Rightarrow>
                    Inl (ErrorfW (''cannot browse configuration value: ('' @ applicationName @
                                  '', '' @ configName @ '') - '' @ Error err) err)
                | None \<Rightarrow>
                    Inl (ErrorfW (Error ErrConfigNotFound @ '': ('' @ applicationName @
                                  '', '' @ configName @ '')'') ErrConfigNotFound))))"

subsection \<open>Writing\<close>

definition MustRegisterApplication ::
  "faults \<Rightarrow> database \<Rightarrow> string \<Rightarrow> error option \<times> database" where
  "MustRegisterApplication f db applicationName =
     (case db_Exec f (insert_application applicationName) db of
        (Inl err, db') \<Rightarrow> (Some err, db')
      | (Inr result, db') \<Rightarrow> (None, db'))"

definition RegisterApplication ::
  "faults \<Rightarrow> database \<Rightarrow> string \<Rightarrow> error option \<times> database" where
  "RegisterApplication f db applicationName =
     (case db_Exec f (insert_application_do_nothing applicationName) db of
        (Inl err, db') \<Rightarrow> (Some err, db')
      | (Inr result, db') \<Rightarrow> (None, db'))"

definition UpsertConfig ::
  "faults \<Rightarrow> database \<Rightarrow> string \<Rightarrow> string \<Rightarrow> string \<Rightarrow> error option \<times> database" where
  "UpsertConfig f db applicationName configName configValue =
     (case db_Exec f (upsert_configuration applicationName configName configValue) db of
        (Inl err, db') \<Rightarrow> (Some err, db')
      | (Inr result, db') \<Rightarrow> (None, db'))"

definition DeleteConfig ::
  "faults \<Rightarrow> database \<Rightarrow> string \<Rightarrow> string \<Rightarrow> bool \<Rightarrow> error option \<times> database" where
  "DeleteConfig f db applicationName configName likePattern =
     (let query = (if likePattern
                   then delete_configurations (where_name_like applicationName configName)
                   else delete_configurations (where_name_eq applicationName configName))
      in case db_Exec f query db of
           (Inl err, db') \<Rightarrow>
             (Some (ErrorfW (''cannot delete a specific config ('' @ applicationName @ '', '' @
                             configName @ ''): '' @ Error err) err), db')
         | (Inr result, db') \<Rightarrow>
             (case result_RowsAffected f result of
                Inl err \<Rightarrow>
                  (Some (ErrorfW (''cannot check the number of rows affected by the delete: '' @
                                  Error err) err), db')
              | Inr numRows \<Rightarrow>
                  if numRows = 0 then
                    (Some (Errorf (''unexpected number of affected rows: '' @ fmt_d numRows)),
                     db')
                  else (None, db')))"

text \<open>
  Calling \<^verbatim>\<open>RegisterApplication\<close> \<open>n\<close> times in a row with the same name, stopping at the
  first call that returns an error.
\<close>

fun RegisterApplication_times ::
  "nat \<Rightarrow> database \<Rightarrow> string \<Rightarrow> error option \<times> database" where
  "RegisterApplication_times 0 db applicationName = (None, db)"
| "RegisterApplication_times (Suc n) db applicationName =
     (case RegisterApplication no_faults db applicationName of
        (Some err, db') \<Rightarrow> (Some err, db')
      | (None, db') \<Rightarrow> RegisterApplication_times n db' applicationName)"

text \<open>
  The states of the database that the repository can produce from a fresh file, whatever the
  driver does during the calls.
\<close>

inductive reachable :: "database \<Rightarrow> bool" where
  fresh: "reachable fresh_database"
| must_register: "reachable db \<Longrightarrow> reachable (snd (MustRegisterApplication f db app))"
| register: "reachable db \<Longrightarrow> reachable (snd (RegisterApplication f db app))"
| upsert: "reachable db \<Longrightarrow> reachable (snd (UpsertConfig f db app name val))"
| delete: "reachable db \<Longrightarrow> reachable (snd (DeleteConfig f db app name like))"

text \<open>
  The value \<^verbatim>\<open>fmt.Errorf("%w: (%s, %s)", ErrConfigNotFound, applicationName, configName)\<close>
  with its message written out.
\<close>

definition not_found :: "string \<Rightarrow> string \<Rightarrow> error" where
  "not_found app name =
     ErrorfW (''configuration value not found: ('' @ app @ '', '' @ name @ '')'')
       ErrConfigNotFound"

text \<open>A small database for concrete checks.\<close>

definition example_database :: database where
  "example_database =
     \<lparr>applications = [''svc''],
      configurations =
        [\<lparr>application_name = ''svc'', configuration_name = ''prefix.a'',
          configuration_value = ''1''\<rparr>,
         \<lparr>application_name = ''svc'', configuration_name = ''timeout'',
          configuration_value = ''30''\<rparr>,
         \<lparr>application_name = ''web'', configuration_name = ''prefix.a'',
          configuration_value = ''2''\<rparr>,
         \<lparr>application_name = ''svc'', configuration_name = ''Prefix.b'',
          configuration_value = ''3''\<rparr>]\<rparr>"

section \<open>Calls that the driver does not disturb\<close>

lemma fmt_d_0: "fmt_d 0 = ''0''"
  by code_simp

lemma db_Query_no_faults: "db_Query no_faults selected = Inr (selected, None)"
  by (simp add: db_Query_def no_faults_def)

lemma rows_Scan_no_faults: "rows_Scan no_faults row = Inr row"
  by (simp add: rows_Scan_def no_faults_def)

lemma db_Exec_no_faults:
  "db_Exec no_faults stmt db =
     (case stmt db of Inl err \<Rightarrow> (Inl err, db) | Inr (n, db') \<Rightarrow> (Inr n, db'))"
  by (simp add: db_Exec_def no_faults_def)

lemma result_RowsAffected_no_faults: "result_RowsAffected no_faults n = Inr n"
  by (simp add: result_RowsAffected_def no_faults_def)

lemma scan_apps_no_faults: "scan_apps no_faults rows apps = Inr (apps @ rows)"
  by (induction rows arbitrary: apps) (simp_all add: rows_Scan_no_faults)

lemma GetApps_no_faults: "GetApps no_faults db = Inr (applications db)"
  by (simp add: GetApps_def db_Query_no_faults scan_apps_no_faults select_applications_def)

lemma scan_configs_no_faults:
  "scan_configs no_faults app rows configs = Inr (configs ++ map_of (rev rows))"
proof (induction rows arbitrary: configs)
  case Nil
  show ?case by simp
next
  case (Cons row rows)
  obtain name val where row: "row = (name, val)" by (cases row)
  have eq: "configs ++ map_of (rev ((name, val) # rows)) =
        configs(name \<mapsto> val) ++ map_of (rev rows)"
    by (auto simp: fun_eq_iff map_add_def split: option.splits)
  have "scan_configs no_faults app ((name, val) # rows) configs =
        Inr (configs(name \<mapsto> val) ++ map_of (rev rows))"
    by (simp add: rows_Scan_no_faults Cons.IH del: fun_upd_apply)
  then show ?case
    unfolding row eq .
qed

lemma GetConfigs_no_faults:
  "GetConfigs no_faults db app = Inr (map_of (rev (select_configurations app db)))"
  by (simp add: GetConfigs_def db_Query_no_faults scan_configs_no_faults)

lemma GetConfig_no_faults:
  "GetConfig no_faults db app name =
     (case select_configuration_value app name db of
        [] \<Rightarrow> Inl (not_found app name)
      | val # rest \<Rightarrow> Inr val)"
  by (simp add: GetConfig_def db_Query_no_faults rows_Scan_no_faults not_found_def
      split: list.splits)

lemma RegisterApplication_no_faults:
  "RegisterApplication no_faults db app =
     (None, if app \<in> set (applications db) then db
            else db\<lparr>applications := applications db @ [app]\<rparr>)"
  by (simp add: RegisterApplication_def db_Exec_no_faults insert_application_do_nothing_def)

lemma MustRegisterApplication_no_faults:
  "MustRegisterApplication no_faults db app =
     (if app \<in> set (applications db) then (Some (ConstraintError ''applications.name''), db)
      else (None, db\<lparr>applications := applications db @ [app]\<rparr>))"
  by (simp add: MustRegisterApplication_def db_Exec_no_faults insert_application_def)

lemma UpsertConfig_no_faults:
  "UpsertConfig no_faults db app name val =
     (None, db\<lparr>configurations := upsert_rows app name val (configurations db)\<rparr>)"
  by (simp add: UpsertConfig_def db_Exec_no_faults upsert_configuration_def)

lemma DeleteConfig_no_faults:
  "DeleteConfig no_faults db app name like =
     (let cond = (if like then where_name_like app name else where_name_eq app name)
      in (if filter cond (configurations db) = []
          then Some (Errorf ''unexpected number of affected rows: 0'') else None,
          db\<lparr>configurations := filter (\<lambda>r. \<not> cond r) (configurations db)\<rparr>))"
  by (simp add: DeleteConfig_def db_Exec_no_faults result_RowsAffected_no_faults
      delete_configurations_def fmt_d_0 Let_def)

section \<open>The statements keep the constraints of the schema\<close>

lemma config_key_update [simp]:
  "config_key (r\<lparr>configuration_value := val\<rparr>) = config_key r"
  by (simp add: config_key_def)

lemma keys_upsert_rows:
  "map config_key (upsert_rows app name val rows) =
     (if (app, name) \<in> set (map config_key rows) then map config_key rows
      else map config_key rows @ [(app, name)])"
proof -
  have "map config_key
          (map (\<lambda>r. if config_key r = k then r\<lparr>configuration_value := val\<rparr> else r) rows) =
        map config_key rows" for k
    by (induction rows) simp_all
  then show ?thesis
    by (simp add: upsert_rows_def config_key_def)
qed

lemma distinct_upsert_rows:
  "distinct (map config_key rows) \<Longrightarrow> distinct (map config_key (upsert_rows app name val rows))"
  by (simp add: keys_upsert_rows)

lemma where_name_eq_key: "where_name_eq app name r \<longleftrightarrow> config_key r = (app, name)"
  by (auto simp: where_name_eq_def config_key_def)

lemma filter_key_distinct:
  "distinct (map config_key rows) \<Longrightarrow> r \<in> set rows \<Longrightarrow>
   filter (\<lambda>x. config_key x = config_key r) rows = [r]"
proof (induction rows)
  case Nil
  then show ?case by simp
next
  case (Cons x rows)
  show ?case
  proof (cases "x = r")
    case True
    have "filter (\<lambda>y. config_key y = config_key r) rows = []"
      using Cons.prems(1) True by (auto simp: filter_empty_conv image_iff)
    with True show ?thesis by simp
  next
    case False
    with Cons.prems have "r \<in> set rows" by simp
    moreover from this Cons.prems(1) have "config_key x \<noteq> config_key r"
      by auto
    ultimately show ?thesis using Cons by simp
  qed
qed

lemma upsert_rows_selected:
  "map configuration_value (filter (where_name_eq app name) (upsert_rows app name val rows)) =
     replicate (max 1 (length (filter (where_name_eq app name) rows))) val"
proof -
  let ?upd = "\<lambda>r. if config_key r = (app, name) then r\<lparr>configuration_value := val\<rparr> else r"
  have upd: "map configuration_value (filter (where_name_eq app name) (map ?upd xs)) =
             replicate (length (filter (where_name_eq app name) xs)) val" for xs
    by (induction xs) (auto simp: where_name_eq_key)
  show ?thesis
  proof (cases "(app, name) \<in> set (map config_key rows)")
    case True
    then obtain r where "r \<in> set rows" "where_name_eq app name r"
      by (auto simp: where_name_eq_key)
    then have "filter (where_name_eq app name) rows \<noteq> []"
      by (auto simp: filter_empty_conv)
    then have "max 1 (length (filter (where_name_eq app name) rows)) =
               length (filter (where_name_eq app name) rows)"
      by (cases "filter (where_name_eq app name) rows") simp_all
    with True upd show ?thesis by (simp add: upsert_rows_def)
  next
    case False
    then have "filter (where_name_eq app name) rows = []"
      by (force simp: filter_empty_conv where_name_eq_key)
    with False show ?thesis
      by (simp add: upsert_rows_def where_name_eq_def)
  qed
qed

lemma schema_ok_fresh: "schema_ok fresh_database"
  by (simp add: schema_ok_def fresh_database_def)

lemma schema_ok_RegisterApplication:
  "schema_ok db \<Longrightarrow> schema_ok (snd (RegisterApplication f db app))"
  by (auto simp: schema_ok_def RegisterApplication_def db_Exec_def
      insert_application_do_nothing_def split: option.splits)

lemma schema_ok_MustRegisterApplication:
  "schema_ok db \<Longrightarrow> schema_ok (snd (MustRegisterApplication f db app))"
  by (auto simp: schema_ok_def MustRegisterApplication_def db_Exec_def
      insert_application_def split: option.splits)

lemma schema_ok_UpsertConfig:
  "schema_ok db \<Longrightarrow> schema_ok (snd (UpsertConfig f db app name val))"
  by (auto simp: schema_ok_def UpsertConfig_def db_Exec_def upsert_configuration_def
      distinct_upsert_rows split: option.splits)

lemma schema_ok_DeleteConfig:
  "schema_ok db \<Longrightarrow> schema_ok (snd (DeleteConfig f db app name like))"
  by (auto simp: schema_ok_def DeleteConfig_def db_Exec_def delete_configurations_def
      result_RowsAffected_def distinct_map_filter Let_def split: option.splits)

lemma reachable_schema_ok: "reachable db \<Longrightarrow> schema_ok db"
  by (induction rule: reachable.induct)
    (simp_all add: schema_ok_fresh schema_ok_MustRegisterApplication
      schema_ok_RegisterApplication schema_ok_UpsertConfig schema_ok_DeleteConfig)

lemma distinct_names_of_app:
  "distinct (map config_key rows) \<Longrightarrow>
   distinct (map configuration_name (filter (\<lambda>r. application_name r = app) rows))"
  by (induction rows) (auto simp: config_key_def image_iff)

lemma distinct_select_configurations:
  "schema_ok db \<Longrightarrow> distinct (map fst (select_configurations app db))"
  by (simp add: select_configurations_def schema_ok_def comp_def distinct_names_of_app)

lemma select_configurations_mem:
  "(k, v) \<in> set (select_configurations app db) \<longleftrightarrow>
   \<lparr>application_name = app, configuration_name = k, configuration_value = v\<rparr>
     \<in> set (configurations db)"
  (is "?lhs \<longleftrightarrow> ?row \<in> _")
proof
  assume ?lhs
  then obtain r where r: "r \<in> set (configurations db)" "application_name r = app"
    "configuration_name r = k" "configuration_value r = v"
    by (auto simp: select_configurations_def)
  have "r = ?row" using r(2-4) by (cases r) simp
  with r(1) show "?row \<in> set (configurations db)" by simp
next
  assume "?row \<in> set (configurations db)"
  then have "(configuration_name ?row, configuration_value ?row)
             \<in> set (select_configurations app db)"
    unfolding select_configurations_def set_map set_filter by (intro imageI CollectI) simp
  then show ?lhs by simp
qed

lemma GetConfigs_lookup:
  assumes "schema_ok db"
  shows "map_of (rev (select_configurations app db)) k = Some v \<longleftrightarrow>
         \<lparr>application_name = app, configuration_name = k, configuration_value = v\<rparr>
           \<in> set (configurations db)"
proof -
  have "distinct (map fst (rev (select_configurations app db)))"
    using distinct_select_configurations [OF assms, of app] by (simp add: rev_map [symmetric])
  then show ?thesis
    by (simp add: select_configurations_mem)
qed

lemma select_configuration_value_filter:
  "select_configuration_value app name db =
     map configuration_value (filter (where_name_eq app name) (configurations db))"
  by (simp add: select_configuration_value_def where_name_eq_def [abs_def])

lemma length_upsert_rows_again:
  "(app, name) \<in> set (map config_key rows) \<Longrightarrow>
   length (upsert_rows app name val rows) = length rows"
  by (simp add: upsert_rows_def)

lemma key_in_upsert_rows: "(app, name) \<in> set (map config_key (upsert_rows app name val rows))"
  by (simp add: keys_upsert_rows)

lemma count_key_distinct:
  "distinct (map config_key rows) \<Longrightarrow> (app, name) \<in> set (map config_key rows) \<Longrightarrow>
   length (filter (where_name_eq app name) rows) = 1"
proof -
  assume d: "distinct (map config_key rows)" and "(app, name) \<in> set (map config_key rows)"
  then obtain r where r: "r \<in> set rows" "config_key r = (app, name)" by auto
  have "filter (where_name_eq app name) rows = filter (\<lambda>x. config_key x = config_key r) rows"
    by (simp add: where_name_eq_key [abs_def] r(2))
  with filter_key_distinct [OF d r(1)] show ?thesis by simp
qed

lemma length_filter_not:
  "length (filter (\<lambda>r. \<not> cond r) rows) + length (filter cond rows) = length rows"
  using sum_length_filter_compl [of cond rows] by simp

lemma filter_not_same: "filter cond rows = [] \<Longrightarrow> filter (\<lambda>r. \<not> cond r) rows = rows"
  by (simp add: filter_empty_conv filter_id_conv)

lemma filter_not_less:
  "filter cond rows \<noteq> [] \<Longrightarrow> length (filter (\<lambda>r. \<not> cond r) rows) < length rows"
  using length_filter_not [of cond rows] by (cases "filter cond rows") auto


lemma schema_ok_example: "schema_ok example_database"
  by (simp add: schema_ok_def example_database_def config_key_def)

lemma select_value_of_row:
  assumes "distinct (map config_key rows)"
    and "\<lparr>application_name = app, configuration_name = name, configuration_value = val\<rparr>
           \<in> set rows"
  shows "map configuration_value (filter (where_name_eq app name) rows) = [val]"
proof -
  let ?r = "\<lparr>application_name = app, configuration_name = name, configuration_value = val\<rparr>"
  have "filter (where_name_eq app name) rows = filter (\<lambda>x. config_key x = config_key ?r) rows"
    by (simp add: where_name_eq_key [abs_def] config_key_def)
  with filter_key_distinct [OF assms] show ?thesis by simp
qed

lemma select_value_absent:
  "(app, name) \<notin> set (map config_key rows) \<Longrightarrow> filter (where_name_eq app name) rows = []"
  by (force simp: filter_empty_conv where_name_eq_key)

lemma RegisterApplication_times_no_faults:
  "RegisterApplication_times n db app =
     (None, if n = 0 \<or> app \<in> set (applications db) then db
            else db\<lparr>applications := applications db @ [app]\<rparr>)"
proof (induction n arbitrary: db)
  case 0
  show ?case by simp
next
  case (Suc n)
  show ?case
    by (simp add: RegisterApplication_no_faults Suc.IH)
qed

lemma count_list_distinct:
  "distinct xs \<Longrightarrow> count_list xs a = (if a \<in> set xs then 1 else 0)"
  by (induction xs) auto

lemma path_Clean_not_empty: "path_Clean path \<noteq> []"
  by (simp add: path_Clean_def Let_def)

section \<open>Cleaning a clean path\<close>

lemma clean_loop_slash: "clean_loop rooted (CHR ''/'' # rest) out dotdot = clean_loop rooted rest out dotdot"
  by (simp add: clean_loop.simps(2))

lemma rooted_path_start: "rooted_path elems = [] \<or> hd (rooted_path elems) = CHR ''/''"
  by (cases elems) (simp_all add: rooted_path_def)

lemma takeWhile_element:
  assumes "CHR ''/'' \<notin> set s" and "rest = [] \<or> hd rest = CHR ''/''"
  shows "takeWhile (\<lambda>x. x \<noteq> CHR ''/'') (s @ rest) = s"
    and "dropWhile (\<lambda>x. x \<noteq> CHR ''/'') (s @ rest) = rest"
proof -
  have s: "\<forall>x \<in> set s. x \<noteq> CHR ''/''" using assms(1) by auto
  have t: "takeWhile (\<lambda>x. x \<noteq> CHR ''/'') rest = []"
    using assms(2) by (cases rest) auto
  have d: "dropWhile (\<lambda>x. x \<noteq> CHR ''/'') rest = rest"
    using assms(2) by (cases rest) auto
  show "takeWhile (\<lambda>x. x \<noteq> CHR ''/'') (s @ rest) = s"
    using s t by (simp add: takeWhile_append2)
  show "dropWhile (\<lambda>x. x \<noteq> CHR ''/'') (s @ rest) = rest"
    using s d by (simp add: dropWhile_append2)
qed

lemma clean_loop_element:
  assumes "path_element s" and "rest = [] \<or> hd rest = CHR ''/''"
  shows "clean_loop True (s @ rest) out dotdot =
         clean_loop True rest ((if length out \<noteq> 1 then out @ ''/'' else out) @ s) dotdot"
proof -
  from assms(1) obtain c cs where s: "s = c # cs" and c: "c \<noteq> CHR ''/''"
    and cs: "CHR ''/'' \<notin> set cs" and dot: "s \<noteq> ''.''" and dotdot: "s \<noteq> ''..''"
    by (cases s) (auto simp: path_element_def)
  have no2: "\<not> (c = CHR ''.'' \<and> (cs @ rest = [] \<or> hd (cs @ rest) = CHR ''/''))"
    using s dot cs by (cases cs) auto
  have no3: "\<not> (c = CHR ''.'' \<and> hd (cs @ rest) = CHR ''.'' \<and>
                 (tl (cs @ rest) = [] \<or> hd (tl (cs @ rest)) = CHR ''/''))"
  proof (cases cs)
    case Nil
    with s dot show ?thesis by auto
  next
    case (Cons d ds)
    with s dotdot cs show ?thesis by (cases ds) auto
  qed
  have tw: "takeWhile (\<lambda>x. x \<noteq> CHR ''/'') (cs @ rest) = cs"
    and dw: "dropWhile (\<lambda>x. x \<noteq> CHR ''/'') (cs @ rest) = rest"
    using takeWhile_element [OF cs assms(2)] by simp_all
  have "clean_loop True (c # cs @ rest) out dotdot =
        clean_loop True rest ((if length out \<noteq> 1 then out @ ''/'' else out) @ c # cs) dotdot"
    apply (subst clean_loop.simps(2))
    apply (simp only: c no2 no3 if_False Let_def tw dw)
    apply simp
    done
  then show ?thesis
    by (simp add: s)
qed

lemma clean_loop_rooted_path:
  assumes "\<forall>s \<in> set elems. path_element s" and "length out \<noteq> 1"
  shows "clean_loop True (rooted_path elems) out dotdot = out @ rooted_path elems"
  using assms
proof (induction elems arbitrary: out)
  case Nil
  show ?case by (simp add: rooted_path_def)
next
  case (Cons s elems)
  have s: "path_element s" using Cons.prems(1) by simp
  then have ne: "s \<noteq> []" by (simp add: path_element_def)
  have split: "rooted_path (s # elems) = CHR ''/'' # s @ rooted_path elems"
    by (simp add: rooted_path_def)
  have "clean_loop True (rooted_path (s # elems)) out dotdot =
        clean_loop True (s @ rooted_path elems) out dotdot"
    by (simp add: split clean_loop_slash)
  also have "\<dots> = clean_loop True (rooted_path elems) (out @ ''/'' @ s) dotdot"
    using clean_loop_element [OF s rooted_path_start] Cons.prems(2) by simp
  also have "\<dots> = (out @ ''/'' @ s) @ rooted_path elems"
    using Cons.prems(1) ne by (intro Cons.IH) auto
  finally show ?case by (simp add: split)
qed

lemma path_Clean_rooted_path:
  assumes "\<forall>s \<in> set elems. path_element s" and "elems \<noteq> []"
  shows "path_Clean (rooted_path elems) = rooted_path elems"
proof -
  from assms(2) obtain s rest where elems: "elems = s # rest" by (cases elems) auto
  have s: "path_element s" using assms(1) elems by simp
  then have ne: "s \<noteq> []" by (simp add: path_element_def)
  have path: "rooted_path elems = CHR ''/'' # s @ rooted_path rest"
    by (simp add: elems rooted_path_def)
  have "clean_loop True (s @ rooted_path rest) ''/'' 1 =
        clean_loop True (rooted_path rest) (''/'' @ s) 1"
    using clean_loop_element [OF s rooted_path_start, of rest "''/''" 1] by simp
  also have "\<dots> = (''/'' @ s) @ rooted_path rest"
    using assms(1) ne by (intro clean_loop_rooted_path) (auto simp: elems)
  finally show ?thesis
    by (simp add: path_Clean_def path)
qed

lemma path_Join_rooted_path:
  assumes "\<forall>s \<in> set elems. path_element s" and "elems \<noteq> []" and "path_element name"
  shows "path_Join [rooted_path elems, name] = rooted_path elems @ ''/'' @ name"
proof -
  have ne: "rooted_path elems \<noteq> []"
    using assms(2) by (cases elems) (simp_all add: rooted_path_def)
  have "join_elems [] [rooted_path elems, name] = rooted_path (elems @ [name])"
    using ne by (simp add: rooted_path_def)
  moreover have "path_Clean (rooted_path (elems @ [name])) = rooted_path (elems @ [name])"
    using assms by (intro path_Clean_rooted_path) auto
  ultimately show ?thesis
    using ne by (simp add: path_Join_def rooted_path_def)
qed

lemma path_element_config_db: "path_element ''.config.db''"
  by (simp add: path_element_def)

section \<open>The claims\<close>

text \<open>
  Unless a theorem says otherwise, it is about calls that the driver does not disturb
  (\<open>no_faults\<close>).  Where a property depends on the uniqueness constraints of the schema, the
  theorem assumes \<open>schema_ok\<close>, which holds in every reachable state
  (\<open>reachable_schema_ok\<close>).
\<close>

text \<open>
  C1: after \<^verbatim>\<open>UpsertConfig(A, K, V)\<close> and then \<^verbatim>\<open>UpsertConfig(A, K, V')\<close>, both succeed,
  \<^verbatim>\<open>GetConfig(A, K)\<close> returns \<open>V'\<close>, the map of \<^verbatim>\<open>GetConfigs(A)\<close> has \<open>V'\<close> at \<open>K\<close>,
  the table holds exactly one row for \<open>(A, K)\<close>, and the second upsert added no row.
\<close>

theorem upsert_twice_keeps_last_value:
  assumes "schema_ok db"
  shows "case UpsertConfig no_faults db A K V of (err1, db1) \<Rightarrow>
         case UpsertConfig no_faults db1 A K V' of (err2, db2) \<Rightarrow>
           err1 = None \<and> err2 = None \<and>
           GetConfig no_faults db2 A K = Inr V' \<and>
           (\<exists>configs. GetConfigs no_faults db2 A = Inr configs \<and> configs K = Some V') \<and>
           length (filter (where_name_eq A K) (configurations db2)) = 1 \<and>
           length (configurations db2) = length (configurations db1)"
proof -
  define rows1 where "rows1 = upsert_rows A K V (configurations db)"
  define rows2 where "rows2 = upsert_rows A K V' rows1"
  define db2 where "db2 = db\<lparr>configurations := rows2\<rparr>"
  have d1: "distinct (map config_key rows1)"
    using assms by (simp add: rows1_def schema_ok_def distinct_upsert_rows)
  have k1: "(A, K) \<in> set (map config_key rows1)"
    unfolding rows1_def by (rule key_in_upsert_rows)
  have d2: "distinct (map config_key rows2)"
    using d1 by (simp add: rows2_def distinct_upsert_rows)
  have k2: "(A, K) \<in> set (map config_key rows2)"
    unfolding rows2_def by (rule key_in_upsert_rows)
  have ok2: "schema_ok db2"
    using assms d2 by (simp add: schema_ok_def db2_def)
  have one1: "length (filter (where_name_eq A K) rows1) = 1"
    using d1 k1 by (rule count_key_distinct)
  have one2: "length (filter (where_name_eq A K) rows2) = 1"
    using d2 k2 by (rule count_key_distinct)
  have sel: "select_configuration_value A K db2 = [V']"
    using upsert_rows_selected [of A K V' rows1] one1
    by (simp add: select_configuration_value_filter db2_def rows2_def)
  have get: "GetConfig no_faults db2 A K = Inr V'"
    by (simp add: GetConfig_no_faults sel)
  have "filter (where_name_eq A K) rows2 \<noteq> []"
    using one2 by auto
  then obtain r where r: "r \<in> set rows2" "where_name_eq A K r"
    by (auto simp: filter_empty_conv)
  have "configuration_value r \<in> set (select_configuration_value A K db2)"
    using r by (simp add: select_configuration_value_filter db2_def)
  then have "configuration_value r = V'" by (simp add: sel)
  with r(2) have "r = \<lparr>application_name = A, configuration_name = K,
                         configuration_value = V'\<rparr>"
    unfolding where_name_eq_def by (cases r) simp
  with r(1) have "\<lparr>application_name = A, configuration_name = K, configuration_value = V'\<rparr>
               \<in> set (configurations db2)"
    by (simp add: db2_def)
  then have all: "map_of (rev (select_configurations A db2)) K = Some V'"
    by (simp add: GetConfigs_lookup [OF ok2])
  have len: "length rows2 = length rows1"
    unfolding rows2_def using k1 by (rule length_upsert_rows_again)
  show ?thesis
    using get all one2 len
    by (simp add: UpsertConfig_no_faults GetConfigs_no_faults db2_def rows2_def rows1_def)
qed

theorem upsert_twice_keeps_last_value_witness:
  "schema_ok fresh_database \<and>
   (case UpsertConfig no_faults fresh_database ''svc'' ''timeout'' ''30'' of (err1, db1) \<Rightarrow>
    case UpsertConfig no_faults db1 ''svc'' ''timeout'' ''60'' of (err2, db2) \<Rightarrow>
      err1 = None \<and> err2 = None \<and>
      GetConfig no_faults db2 ''svc'' ''timeout'' = Inr ''60'' \<and>
      (\<exists>configs. GetConfigs no_faults db2 ''svc'' = Inr configs \<and>
         configs ''timeout'' = Some ''60'') \<and>
      length (filter (where_name_eq ''svc'' ''timeout'') (configurations db2)) = 1 \<and>
      length (configurations db2) = length (configurations db1))"
  using upsert_twice_keeps_last_value
      [OF schema_ok_fresh, where A = "''svc''" and K = "''timeout''" and V = "''30''"
        and V' = "''60''"]
    schema_ok_fresh
  by blast

text \<open>
  C2: \<^verbatim>\<open>DeleteConfig(A, K, p)\<close> returns the error for zero affected rows exactly when no row
  was deleted, and returns \<^verbatim>\<open>nil\<close> exactly when at least one row was deleted.  Whatever the
  driver does, a \<^verbatim>\<open>nil\<close> means that a row was deleted, and the error for zero affected rows
  means that the tables are as they were.
\<close>

theorem DeleteConfig_error_iff_nothing_deleted:
  "(case DeleteConfig no_faults db A K p of (err, db') \<Rightarrow>
      length (configurations db') \<le> length (configurations db) \<and>
      (err = Some (Errorf ''unexpected number of affected rows: 0'') \<longleftrightarrow>
         length (configurations db) - length (configurations db') = 0) \<and>
      (err = None \<longleftrightarrow> 0 < length (configurations db) - length (configurations db'))) \<and>
   (case DeleteConfig f db A K p of (err, db') \<Rightarrow>
      (err = None \<longrightarrow> length (configurations db') < length (configurations db)) \<and>
      (err = Some (Errorf ''unexpected number of affected rows: 0'') \<longrightarrow> db' = db))"
proof -
  define cond where "cond = (if p then where_name_like A K else where_name_eq A K)"
  have len: "length (filter (\<lambda>r. \<not> cond r) (configurations db)) +
             length (filter cond (configurations db)) = length (configurations db)"
    by (rule length_filter_not)
  have empty: "filter cond (configurations db) = [] \<longleftrightarrow>
        length (configurations db) - length (filter (\<lambda>r. \<not> cond r) (configurations db)) = 0"
    using len by (cases "filter cond (configurations db)") auto
  have undisturbed: "case DeleteConfig no_faults db A K p of (err, db') \<Rightarrow>
      length (configurations db') \<le> length (configurations db) \<and>
      (err = Some (Errorf ''unexpected number of affected rows: 0'') \<longleftrightarrow>
         length (configurations db) - length (configurations db') = 0) \<and>
      (err = None \<longleftrightarrow> 0 < length (configurations db) - length (configurations db'))"
    using len empty by (simp add: DeleteConfig_no_faults Let_def cond_def [symmetric])
  have "case DeleteConfig f db A K p of (err, db') \<Rightarrow>
      (err = None \<longrightarrow> length (configurations db') < length (configurations db)) \<and>
      (err = Some (Errorf ''unexpected number of affected rows: 0'') \<longrightarrow> db' = db)"
    by (cases p)
      (simp_all add: DeleteConfig_def db_Exec_def result_RowsAffected_def
        delete_configurations_def filter_not_same filter_not_less split: option.splits)
  with undisturbed show ?thesis
    by simp
qed

theorem DeleteConfig_error_iff_nothing_deleted_witness:
  "DeleteConfig no_faults fresh_database ''svc'' ''timeout'' False =
     (Some (Errorf ''unexpected number of affected rows: 0''), fresh_database) \<and>
   fst (DeleteConfig no_faults example_database ''svc'' ''timeout'' False) = None \<and>
   length (configurations (snd (DeleteConfig no_faults example_database ''svc'' ''timeout'' False)))
     < length (configurations example_database)"
proof -
  have hit: "fst (DeleteConfig no_faults example_database ''svc'' ''timeout'' False) = None"
    by (simp add: DeleteConfig_no_faults example_database_def where_name_eq_def Let_def)
  have miss: "fst (DeleteConfig no_faults fresh_database ''svc'' ''timeout'' False) =
              Some (Errorf ''unexpected number of affected rows: 0'')"
    by (simp add: DeleteConfig_no_faults fresh_database_def Let_def)
  show ?thesis
    using hit miss
      DeleteConfig_error_iff_nothing_deleted
        [where db = fresh_database and A = "''svc''" and K = "''timeout''" and p = False
          and f = no_faults]
      DeleteConfig_error_iff_nothing_deleted
        [where db = example_database and A = "''svc''" and K = "''timeout''" and p = False
          and f = no_faults]
    by (auto split: prod.splits)
qed



text \<open>
  C4: \<^verbatim>\<open>GetConfig(A, K)\<close> returns the value of the row stored for \<open>(A, K)\<close>; when no row is
  stored for the pair it returns an error that wraps \<open>ErrConfigNotFound\<close> and whose message
  carries \<open>A\<close> and \<open>K\<close>.
\<close>

theorem GetConfig_value_or_not_found:
  assumes "schema_ok db"
  shows "(\<forall>v. \<lparr>application_name = A, configuration_name = K, configuration_value = v\<rparr>
               \<in> set (configurations db) \<longrightarrow>
             GetConfig no_faults db A K = Inr v) \<and>
         ((A, K) \<notin> set (map config_key (configurations db)) \<longrightarrow>
            (\<exists>e. GetConfig no_faults db A K = Inl e \<and> errors_Is e ErrConfigNotFound \<and>
                 Error e = ''configuration value not found: ('' @ A @ '', '' @ K @ '')''))"
proof (intro conjI allI impI)
  fix v
  assume "\<lparr>application_name = A, configuration_name = K, configuration_value = v\<rparr>
            \<in> set (configurations db)"
  with assms have "select_configuration_value A K db = [v]"
    by (simp add: select_configuration_value_filter schema_ok_def select_value_of_row)
  then show "GetConfig no_faults db A K = Inr v"
    by (simp add: GetConfig_no_faults)
next
  assume "(A, K) \<notin> set (map config_key (configurations db))"
  then have "select_configuration_value A K db = []"
    by (simp add: select_configuration_value_filter select_value_absent)
  then have "GetConfig no_faults db A K = Inl (not_found A K)"
    by (simp add: GetConfig_no_faults)
  then show "\<exists>e. GetConfig no_faults db A K = Inl e \<and> errors_Is e ErrConfigNotFound \<and>
                 Error e = ''configuration value not found: ('' @ A @ '', '' @ K @ '')''"
    by (simp add: not_found_def)
qed

theorem GetConfig_value_or_not_found_witness:
  "schema_ok example_database \<and>
   GetConfig no_faults example_database ''svc'' ''timeout'' = Inr ''30'' \<and>
   (\<exists>e. GetConfig no_faults example_database ''svc'' ''retries'' = Inl e \<and>
        errors_Is e ErrConfigNotFound \<and>
        Error e = ''configuration value not found: (svc, retries)'')"
  using GetConfig_value_or_not_found [OF schema_ok_example, of "''svc''" "''timeout''"]
    GetConfig_value_or_not_found [OF schema_ok_example, of "''svc''" "''retries''"]
    schema_ok_example
  by (simp add: example_database_def config_key_def)

text \<open>
  C5: \<^verbatim>\<open>RegisterApplication(A)\<close> returns \<^verbatim>\<open>nil\<close> and changes nothing when \<open>A\<close> is already
  registered, and after \<open>n \<ge> 1\<close> calls of \<^verbatim>\<open>RegisterApplication(A)\<close>, all of which succeed,
  \<^verbatim>\<open>GetApps()\<close> lists \<open>A\<close> exactly once.
\<close>

theorem RegisterApplication_idempotent:
  assumes "schema_ok db" and "1 \<le> n"
  shows "(A \<in> set (applications db) \<longrightarrow> RegisterApplication no_faults db A = (None, db)) \<and>
         (case RegisterApplication_times n db A of (err, db') \<Rightarrow>
            err = None \<and>
            (\<exists>apps. GetApps no_faults db' = Inr apps \<and> count_list apps A = 1))"
proof -
  have "distinct (applications db)"
    using assms(1) by (simp add: schema_ok_def)
  then show ?thesis
    using assms(2)
    by (simp add: RegisterApplication_no_faults RegisterApplication_times_no_faults
        GetApps_no_faults count_list_distinct)
qed

theorem RegisterApplication_idempotent_witness:
  "schema_ok fresh_database \<and> (1::nat) \<le> 3 \<and>
   (case RegisterApplication_times 3 fresh_database ''svc'' of (err, db') \<Rightarrow>
      err = None \<and> (\<exists>apps. GetApps no_faults db' = Inr apps \<and> count_list apps ''svc'' = 1)) \<and>
   schema_ok example_database \<and> ''svc'' \<in> set (applications example_database) \<and>
   RegisterApplication no_faults example_database ''svc'' = (None, example_database)"
proof -
  have n: "(1::nat) \<le> 3" by simp
  have reg: "''svc'' \<in> set (applications example_database)"
    by (simp add: example_database_def)
  have times: "case RegisterApplication_times 3 fresh_database ''svc'' of (err, db') \<Rightarrow>
      err = None \<and> (\<exists>apps. GetApps no_faults db' = Inr apps \<and> count_list apps ''svc'' = 1)"
    using RegisterApplication_idempotent [OF schema_ok_fresh n, of "''svc''"]
    by (rule conjunct2)
  have again: "RegisterApplication no_faults example_database ''svc'' = (None, example_database)"
    using RegisterApplication_idempotent [OF schema_ok_example n, of "''svc''"] reg
    by blast
  show ?thesis
    using schema_ok_fresh n times schema_ok_example reg again
    by (intro conjI)
qed

text \<open>
  C6: when a row is stored for \<open>(A, K)\<close>, \<^verbatim>\<open>DeleteConfig(A, K, false)\<close> succeeds, removes
  that one row and nothing else, and \<^verbatim>\<open>GetConfig(A, K)\<close> then fails with an error that
  wraps \<open>ErrConfigNotFound\<close>.
\<close>

theorem DeleteConfig_exact_then_not_found:
  assumes "schema_ok db"
    and "(A, K) \<in> set (map config_key (configurations db))"
  shows "case DeleteConfig no_faults db A K False of (err, db') \<Rightarrow>
           err = None \<and>
           applications db' = applications db \<and>
           configurations db' = filter (\<lambda>r. config_key r \<noteq> (A, K)) (configurations db) \<and>
           length (configurations db') + 1 = length (configurations db) \<and>
           (\<exists>e. GetConfig no_faults db' A K = Inl e \<and> errors_Is e ErrConfigNotFound)"
proof -
  let ?rows = "configurations db"
  let ?rows' = "filter (\<lambda>r. \<not> where_name_eq A K r) ?rows"
  have one: "length (filter (where_name_eq A K) ?rows) = 1"
    using assms by (simp add: schema_ok_def count_key_distinct)
  then have nonempty: "filter (where_name_eq A K) ?rows \<noteq> []"
    by auto
  have len: "length ?rows' + 1 = length ?rows"
    using length_filter_not [of "where_name_eq A K" ?rows] one by simp
  have "filter (where_name_eq A K) ?rows' = []"
    by (simp add: filter_empty_conv)
  then have "select_configuration_value A K (db\<lparr>configurations := ?rows'\<rparr>) = []"
    by (simp add: select_configuration_value_filter)
  then have "GetConfig no_faults (db\<lparr>configurations := ?rows'\<rparr>) A K = Inl (not_found A K)"
    by (simp add: GetConfig_no_faults)
  then show ?thesis
    using nonempty len
    by (simp add: DeleteConfig_no_faults not_found_def where_name_eq_key [abs_def])
qed

theorem DeleteConfig_exact_then_not_found_witness:
  "schema_ok example_database \<and>
   (''svc'', ''timeout'') \<in> set (map config_key (configurations example_database)) \<and>
   (case DeleteConfig no_faults example_database ''svc'' ''timeout'' False of (err, db') \<Rightarrow>
      err = None \<and>
      applications db' = applications example_database \<and>
      configurations db' =
        filter (\<lambda>r. config_key r \<noteq> (''svc'', ''timeout'')) (configurations example_database) \<and>
      length (configurations db') + 1 = length (configurations example_database) \<and>
      (\<exists>e. GetConfig no_faults db' ''svc'' ''timeout'' = Inl e \<and> errors_Is e ErrConfigNotFound))"
proof -
  have key: "(''svc'', ''timeout'') \<in> set (map config_key (configurations example_database))"
    by (simp add: example_database_def config_key_def)
  show ?thesis
    using DeleteConfig_exact_then_not_found [OF schema_ok_example key] schema_ok_example key
    by blast
qed

text \<open>
  C7: \<^verbatim>\<open>GetConfigs(A)\<close> returns the map that holds exactly the name/value pairs of the rows
  stored for \<open>A\<close>; when no row is stored for \<open>A\<close>, registered or not, it returns the empty
  map and no error.
\<close>

theorem GetConfigs_all_pairs:
  assumes "schema_ok db"
  shows "\<exists>configs. GetConfigs no_faults db A = Inr configs \<and>
           (\<forall>k v. configs k = Some v \<longleftrightarrow>
              \<lparr>application_name = A, configuration_name = k, configuration_value = v\<rparr>
                \<in> set (configurations db)) \<and>
           ((\<forall>r \<in> set (configurations db). application_name r \<noteq> A) \<longrightarrow>
              configs = Map.empty)"
proof -
  have "filter (\<lambda>r. application_name r = A) (configurations db) = []"
    if "\<forall>r \<in> set (configurations db). application_name r \<noteq> A"
    using that by (simp add: filter_empty_conv)
  then show ?thesis
    using GetConfigs_lookup [OF assms, of A]
    by (simp add: GetConfigs_no_faults select_configurations_def)
qed

theorem GetConfigs_all_pairs_witness:
  "schema_ok example_database \<and>
   (\<exists>configs. GetConfigs no_faults example_database ''web'' = Inr configs \<and>
      configs ''prefix.a'' = Some ''2'' \<and> configs ''timeout'' = None) \<and>
   GetConfigs no_faults example_database ''nobody'' = Inr Map.empty"
proof -
  obtain configs where c: "GetConfigs no_faults example_database ''web'' = Inr configs"
    "\<forall>k v. configs k = Some v \<longleftrightarrow>
       \<lparr>application_name = ''web'', configuration_name = k, configuration_value = v\<rparr>
         \<in> set (configurations example_database)"
    using GetConfigs_all_pairs [OF schema_ok_example, of "''web''"] by blast
  have "configs ''prefix.a'' = Some ''2''"
    by (simp add: c(2) example_database_def)
  moreover have "configs ''timeout'' \<noteq> Some v" for v
    by (simp add: c(2) example_database_def)
  then have "configs ''timeout'' = None"
    by (cases "configs ''timeout''") auto
  moreover have "GetConfigs no_faults example_database ''nobody'' = Inr Map.empty"
    using GetConfigs_all_pairs [OF schema_ok_example, of "''nobody''"]
    by (auto simp: example_database_def)
  ultimately show ?thesis
    using c(1) schema_ok_example by simp
qed

text \<open>
  C8: when an application named \<open>A\<close> is already registered, \<^verbatim>\<open>MustRegisterApplication(A)\<close>
  returns the driver's constraint error and changes nothing (whatever else the driver does,
  it returns an error), where \<^verbatim>\<open>RegisterApplication(A)\<close> returns \<^verbatim>\<open>nil\<close>.
\<close>

theorem MustRegisterApplication_duplicate_fails:
  assumes "A \<in> set (applications db)"
  shows "MustRegisterApplication no_faults db A =
           (Some (ConstraintError ''applications.name''), db) \<and>
         Error (ConstraintError ''applications.name'') =
           ''UNIQUE constraint failed: applications.name'' \<and>
         (\<forall>f. fst (MustRegisterApplication f db A) \<noteq> None \<and>
              snd (MustRegisterApplication f db A) = db) \<and>
         RegisterApplication no_faults db A = (None, db)"
  using assms
  by (simp add: MustRegisterApplication_no_faults RegisterApplication_no_faults
      MustRegisterApplication_def db_Exec_def insert_application_def split: option.splits)
    (simp add: no_faults_def)

theorem MustRegisterApplication_duplicate_fails_witness:
  "''svc'' \<in> set (applications example_database) \<and>
   MustRegisterApplication no_faults example_database ''svc'' =
     (Some (ConstraintError ''applications.name''), example_database) \<and>
   RegisterApplication no_faults example_database ''svc'' = (None, example_database)"
proof -
  have reg: "''svc'' \<in> set (applications example_database)"
    by (simp add: example_database_def)
  show ?thesis
    using MustRegisterApplication_duplicate_fails [OF reg] reg by blast
qed

text \<open>
  C9: \<^verbatim>\<open>UpsertConfig(A, K, V)\<close> succeeds for an application \<open>A\<close> that was never registered;
  \<^verbatim>\<open>GetConfig(A, K)\<close> then returns \<open>V\<close>, and \<^verbatim>\<open>GetApps()\<close> still does not list \<open>A\<close>.
\<close>

theorem UpsertConfig_without_registration:
  assumes "A \<notin> set (applications db)"
  shows "case UpsertConfig no_faults db A K V of (err, db') \<Rightarrow>
           err = None \<and>
           GetConfig no_faults db' A K = Inr V \<and>
           (\<exists>apps. GetApps no_faults db' = Inr apps \<and> A \<notin> set apps)"
proof -
  let ?db' = "db\<lparr>configurations := upsert_rows A K V (configurations db)\<rparr>"
  have "select_configuration_value A K ?db' =
        replicate (max 1 (length (filter (where_name_eq A K) (configurations db)))) V"
    by (simp add: select_configuration_value_filter upsert_rows_selected)
  then obtain n where "select_configuration_value A K ?db' = replicate (Suc n) V"
    by (cases "max 1 (length (filter (where_name_eq A K) (configurations db)))") auto
  then have "GetConfig no_faults ?db' A K = Inr V"
    by (simp add: GetConfig_no_faults)
  then show ?thesis
    using assms by (simp add: UpsertConfig_no_faults GetApps_no_faults)
qed

theorem UpsertConfig_without_registration_witness:
  "''web'' \<notin> set (applications fresh_database) \<and>
   (case UpsertConfig no_faults fresh_database ''web'' ''port'' ''8080'' of (err, db') \<Rightarrow>
      err = None \<and>
      GetConfig no_faults db' ''web'' ''port'' = Inr ''8080'' \<and>
      (\<exists>apps. GetApps no_faults db' = Inr apps \<and> ''web'' \<notin> set apps))"
proof -
  have unreg: "''web'' \<notin> set (applications fresh_database)"
    by (simp add: fresh_database_def)
  show ?thesis
    using UpsertConfig_without_registration [OF unreg, of "''port''" "''8080''"] unreg
    by blast
qed

text \<open>
  C10: \<^verbatim>\<open>DefaultConfigurationFile\<close> always returns a path, never an error: the fixed
  \<^verbatim>\<open>/.config.db\<close> when the home directory cannot be resolved, and otherwise \<^verbatim>\<open>path.Join\<close>
  of the home directory and \<^verbatim>\<open>.config.db\<close>, which for a home directory that is a clean
  rooted path is that directory followed by \<^verbatim>\<open>/.config.db\<close>; the path is never empty.
\<close>

theorem DefaultConfigurationFile_never_fails:
  "DefaultConfigurationFile (Inl err) = ''/.config.db'' \<and>
   DefaultConfigurationFile (Inr home) = path_Join [home, ''.config.db''] \<and>
   DefaultConfigurationFile UserHomeDir \<noteq> [] \<and>
   (elems \<noteq> [] \<and> (\<forall>s \<in> set elems. path_element s) \<longrightarrow>
      DefaultConfigurationFile (Inr (rooted_path elems)) = rooted_path elems @ ''/.config.db'')"
proof -
  have "DefaultConfigurationFile UserHomeDir \<noteq> []"
    by (cases UserHomeDir)
      (simp_all add: DefaultConfigurationFile_def path_Join_def path_Clean_not_empty)
  moreover have "DefaultConfigurationFile (Inr (rooted_path elems)) =
                 rooted_path elems @ ''/.config.db''"
    if "elems \<noteq> []" and "\<forall>s \<in> set elems. path_element s"
    using path_Join_rooted_path [OF that(2) that(1) path_element_config_db]
    by (simp add: DefaultConfigurationFile_def)
  ultimately show ?thesis
    by (simp add: DefaultConfigurationFile_def)
qed

theorem DefaultConfigurationFile_never_fails_witness:
  "path_element ''home'' \<and> path_element ''alice'' \<and>
   rooted_path [''home'', ''alice''] = ''/home/alice'' \<and>
   DefaultConfigurationFile (Inl (Errorf ''$HOME is not defined'')) = ''/.config.db'' \<and>
   DefaultConfigurationFile (Inr ''/home/alice'') = ''/home/alice/.config.db''"
proof -
  have elems: "[''home'', ''alice''] \<noteq> [] \<and> (\<forall>s \<in> set [''home'', ''alice'']. path_element s)"
    by (simp add: path_element_def)
  have path: "rooted_path [''home'', ''alice''] = ''/home/alice''"
    by (simp add: rooted_path_def)
  note inst = DefaultConfigurationFile_never_fails
      [where err = "Errorf ''$HOME is not defined''" and elems = "[''home'', ''alice'']"
        and home = "''/home/alice''" and UserHomeDir = "Inr ''/home/alice''"]
  from inst have fallback:
    "DefaultConfigurationFile (Inl (Errorf ''$HOME is not defined'')) = ''/.config.db''"
    by (rule conjunct1)
  from inst elems have "DefaultConfigurationFile (Inr (rooted_path [''home'', ''alice''])) =
      rooted_path [''home'', ''alice''] @ ''/.config.db''"
    by blast
  then have "DefaultConfigurationFile (Inr ''/home/alice'') = ''/home/alice/.config.db''"
    by (simp add: path)
  with elems path fallback show ?thesis
    by simp
qed

end
